theory Spec2Isabelle
  imports Main "HOL-Library.Sublist" "HOL-Library.Multiset"
begin

section \<open>The URL-to-article pipeline over an SQL store\<close>

text \<open>
  A shallow embedding of \<^verbatim>\<open>internal_displacement/sql_pipeline.py\<close>: the class
  \<^verbatim>\<open>URLArticlePipelineSQL\<close> with its constructor and its four methods. The SQLite
  database, the scraper, the CSV reader and the thread pool are the environment of the
  class; each is modelled by the part of its behaviour the methods depend on.
\<close>

subsection \<open>Articles, rows and tables\<close>

text \<open>
  The attributes \<^verbatim>\<open>insert_article\<close> reads from an \<^verbatim>\<open>Article\<close> object. The class
  itself lives in another module; \<open>pub_date_string\<close> stands for the value of
  \<^verbatim>\<open>article.get_pub_date_string()\<close>.
\<close>

record article =
  title :: string
  url :: string
  authors :: "string list"
  pub_date_string :: string
  domain :: string
  content :: string
  content_type :: string

text \<open>
  A row of \<^verbatim>\<open>Articles (title, url, author, datetime, domain, content, content_type)\<close>
  and a row of \<^verbatim>\<open>Labels (url, category)\<close>, columns in the order of the schema.
\<close>

type_synonym article_row = "string \<times> string \<times> string \<times> string \<times> string \<times> string \<times> string"

type_synonym label_row = "string \<times> string"

definition row_url :: "article_row \<Rightarrow> string" where
  "row_url r = fst (snd r)"

definition row_content :: "article_row \<Rightarrow> string" where
  "row_content r = fst (snd (snd (snd (snd (snd r)))))"

definition label_url :: "label_row \<Rightarrow> string" where
  "label_url r = fst r"

definition label_category :: "label_row \<Rightarrow> string" where
  "label_category r = snd r"

text \<open>
  A table is its rows in insertion order together with the one property of its schema that
  the code reacts to: whether \<open>url\<close> is declared unique (a primary key). The statements
  \<^verbatim>\<open>CREATE TABLE IF NOT EXISTS\<close> of the constructor declare no such constraint, but they
  keep a table that is already in the database file as it is, so the flag is part of the
  input.
\<close>

record 'r table =
  rows :: "'r list"
  url_unique :: bool

datatype error =
    IntegrityError
  | OperationalError string
  | AttributeError string
  | KeyError string

text \<open>
  The text of \<^verbatim>\<open>str(e)\<close>. The pipeline prints it for the errors of a write that is
  refused and of the missing attribute; the other two never reach a \<^verbatim>\<open>print\<close> (for
  \<^verbatim>\<open>IntegrityError\<close> SQLite's text goes on to name the table and column).
\<close>

fun str_of :: "error \<Rightarrow> string" where
  "str_of IntegrityError = ''UNIQUE constraint failed''"
| "str_of (OperationalError msg) = msg"
| "str_of (AttributeError a) =
     [CHR 0x27] @ ''URLArticlePipelineSQL'' @ [CHR 0x27] @ '' object has no attribute ''
       @ [CHR 0x27] @ a @ [CHR 0x27]"
| "str_of (KeyError k) = [CHR 0x27] @ k @ [CHR 0x27]"

text \<open>
  One \<^verbatim>\<open>INSERT INTO t VALUES (...)\<close>. The connection is opened with
  \<^verbatim>\<open>isolation_level=None\<close>, that is in autocommit mode: a statement that succeeds is
  durable at once, and the later \<^verbatim>\<open>commit()\<close> has nothing left to do. A database file
  that cannot be written refuses every insert.
\<close>

definition sql_insert :: "bool \<Rightarrow> ('r \<Rightarrow> string) \<Rightarrow> 'r \<Rightarrow> 'r table \<Rightarrow> error + 'r table" where
  "sql_insert ro key r t =
     (if ro then Inl (OperationalError ''attempt to write a readonly database'')
      else if url_unique t \<and> key r \<in> set (map key (rows t)) then Inl IntegrityError
      else Inr (t\<lparr>rows := rows t @ [r]\<rparr>))"

text \<open>
  \<^verbatim>\<open>cursor.executemany\<close>: one insert per parameter tuple, in order, stopping at the first
  one that raises. The table returned with an error holds what was inserted before it.
\<close>

fun executemany :: "bool \<Rightarrow> ('r \<Rightarrow> string) \<Rightarrow> 'r list \<Rightarrow> 'r table \<Rightarrow> (error + unit) \<times> 'r table" where
  "executemany ro key [] t = (Inr (), t)"
| "executemany ro key (r # rs) t =
     (case sql_insert ro key r t of
        Inl e \<Rightarrow> (Inl e, t)
      | Inr t' \<Rightarrow> executemany ro key rs t')"

subsection \<open>The pipeline object and its constructor\<close>

text \<open>
  The database file as the constructor finds it: each table is there or not, and the file
  may be read-only. A path with no file yet is \<open>new_file\<close>.
\<close>

record db_file =
  articles_tbl :: "article_row table option"
  labels_tbl :: "label_row table option"
  db_readonly :: bool

definition new_file :: db_file where
  "new_file = \<lparr>articles_tbl = None, labels_tbl = None, db_readonly = False\<rparr>"

text \<open>
  The state the methods work on: the two tables behind the connection and the lines printed
  so far. The last two fields are observations only, written and never read by any method:
  the urls handed to \<^verbatim>\<open>executor.submit(scrape, url)\<close> and the arguments of the calls of
  \<^verbatim>\<open>insert_article\<close>, both in order.
\<close>

record pipeline =
  articles :: "article_row table"
  labels :: "label_row table"
  readonly :: bool
  stdout :: "string list"
  submitted :: "string list"
  insert_calls :: "article list"

definition create_table_if_not_exists :: "bool \<Rightarrow> 'r table option \<Rightarrow> error + 'r table" where
  "create_table_if_not_exists ro t =
     (case t of
        Some tb \<Rightarrow> Inr tb
      | None \<Rightarrow>
          if ro then Inl (OperationalError ''attempt to write a readonly database'')
          else Inr \<lparr>rows = [], url_unique = False\<rparr>)"

definition construct :: "db_file \<Rightarrow> error + pipeline" where
  "construct f =
     (case create_table_if_not_exists (db_readonly f) (articles_tbl f) of
        Inl e \<Rightarrow> Inl e
      | Inr a \<Rightarrow>
          (case create_table_if_not_exists (db_readonly f) (labels_tbl f) of
             Inl e \<Rightarrow> Inl e
           | Inr l \<Rightarrow>
               Inr \<lparr>articles = a, labels = l, readonly = db_readonly f,
                    stdout = [], submitted = [], insert_calls = []\<rparr>))"

subsection \<open>insert\_article\<close>

text \<open>Python's \<^verbatim>\<open>sep.join(xs)\<close>.\<close>

fun join :: "string \<Rightarrow> string list \<Rightarrow> string" where
  "join sep [] = []"
| "join sep [x] = x"
| "join sep (x # y # ys) = x @ sep @ join sep (y # ys)"

text \<open>
  The parameter tuple of the \<^verbatim>\<open>INSERT\<close> statement, and the three exits of the
  \<^verbatim>\<open>try\<close> statement. The handler of \<^verbatim>\<open>sqlite3.IntegrityError\<close> evaluates
  \<^verbatim>\<open>self.url\<close> to build its message; the pipeline object has no such attribute, so the
  handler raises \<^verbatim>\<open>AttributeError\<close> before it prints, and an exception raised inside a
  handler is not caught by the next \<^verbatim>\<open>except\<close> clause of the same statement. The
  handler of \<^verbatim>\<open>Exception\<close> prints and returns.
\<close>

definition article_values :: "article \<Rightarrow> article_row" where
  "article_values a =
     (title a, url a, join '','' (authors a), pub_date_string a,
      domain a, content a, content_type a)"

definition insert_article :: "article \<Rightarrow> pipeline \<Rightarrow> (error + unit) \<times> pipeline" where
  "insert_article a s0 =
     (let s = s0\<lparr>insert_calls := insert_calls s0 @ [a]\<rparr>
      in case sql_insert (readonly s) row_url (article_values a) (articles s) of
           Inr t \<Rightarrow> (Inr (), s\<lparr>articles := t\<rparr>)
         | Inl IntegrityError \<Rightarrow> (Inl (AttributeError ''url''), s)
         | Inl e \<Rightarrow> (Inr (), s\<lparr>stdout := stdout s @ [''Exception: '' @ str_of e]\<rparr>))"

subsection \<open>process\_urls\<close>

text \<open>
  What \<^verbatim>\<open>future.result()\<close> gives for one scrape task: an article, \<^verbatim>\<open>None\<close>, or an
  exception (with its text). The scraper is a parameter of \<open>process_urls\<close>.
\<close>

datatype scrape_result = Scraped article | NoArticle | Failed string

text \<open>
  \<^verbatim>\<open>concurrent.futures.as_completed\<close> yields the futures in the order in which they
  finish. The schedule \<open>sched\<close> chooses that order: each number picks one of the futures
  still pending; when the schedule is used up the rest finish in submission order.
\<close>

function as_completed :: "nat list \<Rightarrow> 'a list \<Rightarrow> 'a list" where
  "as_completed sched [] = []"
| "as_completed [] (f # fs) = f # as_completed [] fs"
| "as_completed (k # ks) (f # fs) =
     (let i = k mod length (f # fs)
      in (f # fs) ! i # as_completed ks (take i (f # fs) @ drop (Suc i) (f # fs)))"
  by pat_completeness auto
termination
  by (relation "measure (\<lambda>(sched, fs). length fs)") auto

text \<open>The body of the loop over the completed futures, with its \<^verbatim>\<open>try\<close> statement.\<close>

definition handle_future :: "scrape_result \<Rightarrow> pipeline \<Rightarrow> pipeline" where
  "handle_future f s =
     (case f of
        Failed msg \<Rightarrow> s\<lparr>stdout := stdout s @ [''Exception: '' @ msg]\<rparr>
      | NoArticle \<Rightarrow> s
      | Scraped a \<Rightarrow>
          (let s1 = s\<lparr>stdout := stdout s @ [title a]\<rparr>
           in case insert_article a s1 of
                (Inr u, s2) \<Rightarrow> s2
              | (Inl e, s2) \<Rightarrow> s2\<lparr>stdout := stdout s2 @ [''Exception: '' @ str_of e]\<rparr>))"

text \<open>
  \<open>csv_urls\<close> is the value of \<^verbatim>\<open>urls_from_csv(csv_read(url_csv), url_column)\<close>, the url
  column of the file in order; both functions live in another module.
\<close>

definition process_urls ::
  "(string \<Rightarrow> scrape_result) \<Rightarrow> nat list \<Rightarrow> string list \<Rightarrow> pipeline \<Rightarrow> (error + unit) \<times> pipeline" where
  "process_urls scrape sched csv_urls s =
     (let existing_urls = map row_url (rows (articles s));
          urls = filter (\<lambda>u. u \<notin> set existing_urls) csv_urls;
          s1 = s\<lparr>submitted := submitted s @ urls\<rparr>;
          article_futures = map scrape urls
      in (Inr (), fold handle_future (as_completed sched article_futures) s1))"

subsection \<open>process\_labeled\_data\<close>

text \<open>
  The data frame read by \<^verbatim>\<open>pd.read_csv\<close>: its columns by name, cells as text.
  \<^verbatim>\<open>df[name]\<close> raises \<^verbatim>\<open>KeyError\<close> for a name that is no column. This covers
  files whose cells pandas reads as strings; a column of numbers or an empty cell comes
  back from pandas as a number or NaN, which is outside the model.
\<close>

type_synonym dataframe = "string \<rightharpoonup> string list"

definition process_labeled_data ::
  "dataframe \<Rightarrow> string \<Rightarrow> string \<Rightarrow> pipeline \<Rightarrow> (error + unit) \<times> pipeline" where
  "process_labeled_data df url_column_name label_column_name s =
     (case df url_column_name of
        None \<Rightarrow> (Inl (KeyError url_column_name), s)
      | Some url_values \<Rightarrow>
          (let existing_urls = map label_url (rows (labels s));
               urls = filter (\<lambda>u. u \<notin> set existing_urls) url_values
           in case df label_column_name of
                None \<Rightarrow> (Inl (KeyError label_column_name), s)
              | Some label_values \<Rightarrow>
                  (let values = zip urls label_values
                   in case executemany (readonly s) label_url values (labels s) of
                        (r, t) \<Rightarrow> (r, s\<lparr>labels := t\<rparr>))))"

subsection \<open>get\_training\_data\<close>

text \<open>
  The rows of
  \<^verbatim>\<open>SELECT content,category FROM Articles INNER JOIN Labels ON Articles.url = Labels.url\<close>,
  listed as a loop over Articles with a loop over Labels inside. SQLite may list the same
  rows in another order; no property below depends on the order.
\<close>

definition sql_inner_join :: "article_row list \<Rightarrow> label_row list \<Rightarrow> (string \<times> string) list" where
  "sql_inner_join as ls =
     concat (map (\<lambda>a. map (\<lambda>l. (row_content a, label_category l))
                         (filter (\<lambda>l. row_url a = label_url l) ls)) as)"

text \<open>
  A cursor is the list of rows it has not yet handed out. Iterating it to the end gives
  those rows and leaves it empty.
\<close>

definition fetch_all :: "'a list \<Rightarrow> 'a list \<times> 'a list" where
  "fetch_all cursor = (cursor, [])"

text \<open>
  What \<^verbatim>\<open>np.array\<close> is given in the two places: a list, which becomes a one-dimensional
  array of its elements, and a generator expression, which is stored unevaluated as the
  single element of a zero-dimensional array. The generator is represented by the values it
  would yield from the cursor it reads.
\<close>

datatype ndarray = Array1 "string list" | Array0_generator "string list"

definition get_training_data :: "pipeline \<Rightarrow> (error + ndarray \<times> ndarray) \<times> pipeline" where
  "get_training_data s =
     (let training_cases = sql_inner_join (rows (articles s)) (rows (labels s));
          (fetched, training_cases) = fetch_all training_cases;
          labels_array = Array1 (map snd fetched);
          features = Array0_generator (map fst training_cases)
      in (Inr (labels_array, features), s))"

subsection \<open>Notions used to state the properties\<close>

text \<open>The urls stored in the Articles table, as \<^verbatim>\<open>SELECT url FROM Articles\<close> lists them.\<close>

abbreviation article_urls :: "pipeline \<Rightarrow> string list" where
  "article_urls s \<equiv> map row_url (rows (articles s))"

text \<open>The articles among a list of scrape results, the lines that the loop of
  \<open>process_urls\<close> prints for the results that are exceptions, and those results.\<close>

fun scraped_articles :: "scrape_result list \<Rightarrow> article list" where
  "scraped_articles [] = []"
| "scraped_articles (Scraped a # fs) = a # scraped_articles fs"
| "scraped_articles (f # fs) = scraped_articles fs"

fun failure_lines :: "scrape_result list \<Rightarrow> string list" where
  "failure_lines [] = []"
| "failure_lines (Failed msg # fs) = (''Exception: '' @ msg) # failure_lines fs"
| "failure_lines (f # fs) = failure_lines fs"

fun is_failed :: "scrape_result \<Rightarrow> bool" where
  "is_failed (Failed msg) = True"
| "is_failed f = False"

subsection \<open>Concrete inputs\<close>

definition article_a :: article where
  "article_a =
     \<lparr>title = ''Flood in A'', url = ''http://a.test'', authors = [''Ann'', ''Bo''],
      pub_date_string = ''2016-11-01'', domain = ''a.test'', content = ''text of a'',
      content_type = ''text/html''\<rparr>"

text \<open>The pipeline on a path with no file yet: two empty tables without constraints.\<close>

definition fresh :: pipeline where
  "fresh =
     \<lparr>articles = \<lparr>rows = [], url_unique = False\<rparr>,
      labels = \<lparr>rows = [], url_unique = False\<rparr>,
      readonly = False, stdout = [], submitted = [], insert_calls = []\<rparr>"

text \<open>
  A database file made beforehand with the schema the module's docstring describes (url as
  the primary key of both tables), its Articles table holding the row of \<open>article_a\<close>.
\<close>

definition keyed_file :: db_file where
  "keyed_file =
     \<lparr>articles_tbl = Some \<lparr>rows = [article_values article_a], url_unique = True\<rparr>,
      labels_tbl = Some \<lparr>rows = [], url_unique = True\<rparr>,
      db_readonly = False\<rparr>"

definition keyed :: pipeline where
  "keyed =
     \<lparr>articles = \<lparr>rows = [article_values article_a], url_unique = True\<rparr>,
      labels = \<lparr>rows = [], url_unique = True\<rparr>,
      readonly = False, stdout = [], submitted = [], insert_calls = []\<rparr>"

text \<open>Two states of the network: every scrape times out; every scrape gives \<open>article_a\<close>
  when asked for its url and no article otherwise.\<close>

definition scrape_down :: "string \<Rightarrow> scrape_result" where
  "scrape_down u = Failed ''timed out''"

definition scrape_up :: "string \<Rightarrow> scrape_result" where
  "scrape_up u = (if u = ''http://a.test'' then Scraped article_a else NoArticle)"

text \<open>A scraper that reaches \<open>http://a.test\<close> only, and one that is redirected: whatever url
  it is asked for, the article it returns carries \<open>http://a.test\<close>.\<close>

definition scrape_flaky :: "string \<Rightarrow> scrape_result" where
  "scrape_flaky u = (if u = ''http://a.test'' then Scraped article_a else Failed ''timed out'')"

definition scrape_redirect :: "string \<Rightarrow> scrape_result" where
  "scrape_redirect u = Scraped article_a"

text \<open>Labeled CSV files: one row; the same row followed by a second one; one url twice;
  two urls followed by the first of them again.\<close>

definition csv_one :: dataframe where
  "csv_one = [''URL'' \<mapsto> [''http://a.test''], ''Tag'' \<mapsto> [''disaster'']]"

definition csv_two :: dataframe where
  "csv_two = [''URL'' \<mapsto> [''http://a.test'', ''http://b.test''],
              ''Tag'' \<mapsto> [''disaster'', ''conflict'']]"

definition csv_twice :: dataframe where
  "csv_twice = [''URL'' \<mapsto> [''http://b.test'', ''http://b.test''],
                ''Tag'' \<mapsto> [''conflict'', ''other'']]"

definition csv_thrice :: dataframe where
  "csv_thrice = [''URL'' \<mapsto> [''http://b.test'', ''http://c.test'', ''http://b.test''],
                 ''Tag'' \<mapsto> [''conflict'', ''other'', ''disaster'']]"

section \<open>Properties\<close>

subsection \<open>The store and the completion order\<close>

lemma as_completed_mset: "mset (as_completed sched fs) = mset fs"
proof (induction sched fs rule: as_completed.induct)
  case (3 k ks f fs)
  let ?xs = "f # fs"
  let ?i = "k mod length ?xs"
  have i: "?i < length ?xs" by simp
  have "mset (as_completed (k # ks) ?xs) = mset (?xs ! ?i # (take ?i ?xs @ drop (Suc ?i) ?xs))"
    using 3 by (simp add: Let_def)
  also have "\<dots> = mset (take ?i ?xs @ ?xs ! ?i # drop (Suc ?i) ?xs)" by simp
  also have "\<dots> = mset ?xs" using id_take_nth_drop [OF i] by metis
  finally show ?case .
qed simp_all

lemma as_completed_set: "set (as_completed sched fs) = set fs"
  using as_completed_mset [of sched fs] by (metis set_mset_mset)

lemma as_completed_length: "length (as_completed sched fs) = length fs"
  using as_completed_mset [of sched fs] by (metis size_mset)

lemma sql_insert_Inr:
  "sql_insert ro key r t = Inr t' \<Longrightarrow> rows t' = rows t @ [r] \<and> url_unique t' = url_unique t \<and> \<not> ro"
  by (auto simp: sql_insert_def split: if_splits)

lemma executemany_prefix:
  "executemany ro key vs t = (r, t') \<Longrightarrow>
     \<exists>k\<le>length vs. rows t' = rows t @ take k vs \<and> url_unique t' = url_unique t
        \<and> (r = Inr () \<longrightarrow> k = length vs) \<and> (\<forall>e. r = Inl e \<longrightarrow> k < length vs)"
proof (induction vs arbitrary: t)
  case Nil
  then show ?case by auto
next
  case (Cons v vs)
  show ?case
  proof (cases "sql_insert ro key v t")
    case (Inl e)
    with Cons.prems have "r = Inl e" "t' = t" by auto
    then show ?thesis by (intro exI [of _ 0]) auto
  next
    case (Inr t1)
    with Cons.prems have "executemany ro key vs t1 = (r, t')" by simp
    from Cons.IH [OF this] obtain k where k: "k \<le> length vs" "rows t' = rows t1 @ take k vs"
      "url_unique t' = url_unique t1" "r = Inr () \<longrightarrow> k = length vs"
      "\<forall>e. r = Inl e \<longrightarrow> k < length vs"
      by blast
    from sql_insert_Inr [OF Inr] have t1: "rows t1 = rows t @ [v]" "url_unique t1 = url_unique t"
      by auto
    show ?thesis using k t1 by (intro exI [of _ "Suc k"]) auto
  qed
qed

lemma sql_insert_Inr_eq:
  "sql_insert ro key r t = Inr t' \<Longrightarrow> t' = t\<lparr>rows := rows t @ [r]\<rparr>"
  by (auto simp: sql_insert_def split: if_splits)

lemma executemany_failing_row:
  "executemany ro key vs t = (r, t') \<Longrightarrow>
     (r = Inr () \<and> t' = t\<lparr>rows := rows t @ vs\<rparr>) \<or>
     (\<exists>e k. r = Inl e \<and> k < length vs \<and> t' = t\<lparr>rows := rows t @ take k vs\<rparr> \<and>
            sql_insert ro key (vs ! k) t' = Inl e)"
proof (induction vs arbitrary: t)
  case Nil
  then show ?case by simp
next
  case (Cons v vs)
  show ?case
  proof (cases "sql_insert ro key v t")
    case (Inl e)
    with Cons.prems have "r = Inl e" "t' = t" by auto
    then have "r = Inl e \<and> 0 < length (v # vs) \<and> t' = t\<lparr>rows := rows t @ take 0 (v # vs)\<rparr> \<and>
        sql_insert ro key ((v # vs) ! 0) t' = Inl e"
      using Inl by simp
    then show ?thesis by blast
  next
    case (Inr t1)
    then have t1: "t1 = t\<lparr>rows := rows t @ [v]\<rparr>" by (rule sql_insert_Inr_eq)
    from Inr Cons.prems have "executemany ro key vs t1 = (r, t')" by simp
    from Cons.IH [OF this] show ?thesis
    proof (elim disjE exE conjE)
      assume "r = Inr ()" "t' = t1\<lparr>rows := rows t1 @ vs\<rparr>"
      then show ?thesis using t1 by simp
    next
      fix e k
      assume k: "r = Inl e" "k < length vs" "t' = t1\<lparr>rows := rows t1 @ take k vs\<rparr>"
        "sql_insert ro key (vs ! k) t' = Inl e"
      then have "r = Inl e \<and> Suc k < length (v # vs) \<and>
          t' = t\<lparr>rows := rows t @ take (Suc k) (v # vs)\<rparr> \<and>
          sql_insert ro key ((v # vs) ! Suc k) t' = Inl e"
        using t1 by simp
      then show ?thesis by blast
    qed
  qed
qed

lemma insert_article_frame:
  "labels (snd (insert_article a s)) = labels s"
  "readonly (snd (insert_article a s)) = readonly s"
  "submitted (snd (insert_article a s)) = submitted s"
  "insert_calls (snd (insert_article a s)) = insert_calls s @ [a]"
  "url_unique (articles (snd (insert_article a s))) = url_unique (articles s)"
  by (auto simp: insert_article_def Let_def sql_insert_def split: sum.splits error.splits)

lemma insert_article_rows:
  "rows (articles (snd (insert_article a s))) = rows (articles s) \<or>
   rows (articles (snd (insert_article a s))) = rows (articles s) @ [article_values a]"
  by (auto simp: insert_article_def Let_def sql_insert_def split: sum.splits error.splits)

lemma insert_article_free:
  "\<not> readonly s \<Longrightarrow> \<not> url_unique (articles s) \<Longrightarrow>
   rows (articles (snd (insert_article a s))) = rows (articles s) @ [article_values a]"
  by (simp add: insert_article_def Let_def sql_insert_def)

lemma insert_article_readonly:
  "readonly s \<Longrightarrow> articles (snd (insert_article a s)) = articles s"
  by (simp add: insert_article_def Let_def sql_insert_def)

lemma row_url_article_values: "row_url (article_values a) = url a"
  by (simp add: row_url_def article_values_def)

lemma insert_article_url_stored:
  "\<not> readonly s \<Longrightarrow> url a \<in> set (article_urls (snd (insert_article a s)))"
  by (auto simp: insert_article_def Let_def sql_insert_def row_url_article_values
      split: sum.splits error.splits)

lemma handle_future_Scraped:
  "handle_future (Scraped a) s =
     (let r = insert_article a (s\<lparr>stdout := stdout s @ [title a]\<rparr>)
      in case fst r of
           Inr u \<Rightarrow> snd r
         | Inl e \<Rightarrow> (snd r)\<lparr>stdout := stdout (snd r) @ [''Exception: '' @ str_of e]\<rparr>)"
  by (simp add: handle_future_def Let_def split: prod.splits sum.splits)

lemma handle_future_other:
  "handle_future NoArticle s = s"
  "handle_future (Failed msg) s = s\<lparr>stdout := stdout s @ [''Exception: '' @ msg]\<rparr>"
  by (simp_all add: handle_future_def)

lemma handle_future_frame:
  "labels (handle_future f s) = labels s"
  "readonly (handle_future f s) = readonly s"
  "submitted (handle_future f s) = submitted s"
  "url_unique (articles (handle_future f s)) = url_unique (articles s)"
  "insert_calls (handle_future f s) = insert_calls s @ scraped_articles [f]"
  by (cases f; simp add: handle_future_Scraped handle_future_other Let_def insert_article_frame
      split: sum.splits)+

lemma handle_future_rows:
  "rows (articles (handle_future f s)) = rows (articles s) \<or>
   (\<exists>a. f = Scraped a \<and> rows (articles (handle_future f s)) = rows (articles s) @ [article_values a])"
proof (cases f)
  case (Scraped a)
  show ?thesis
    using insert_article_rows [of a "s\<lparr>stdout := stdout s @ [title a]\<rparr>"]
    by (auto simp: Scraped handle_future_Scraped Let_def split: sum.splits)
qed (simp_all add: handle_future_other)

lemma handle_future_free:
  assumes "\<not> readonly s" "\<not> url_unique (articles s)"
  shows "rows (articles (handle_future f s)) = rows (articles s) @ map article_values (scraped_articles [f])"
proof (cases f)
  case (Scraped a)
  show ?thesis
    using assms insert_article_free [of "s\<lparr>stdout := stdout s @ [title a]\<rparr>" a]
    by (auto simp: Scraped handle_future_Scraped Let_def split: sum.splits)
qed (simp_all add: handle_future_other)

lemma handle_future_readonly:
  "readonly s \<Longrightarrow> articles (handle_future f s) = articles s"
proof (cases f)
  case (Scraped a)
  assume "readonly s"
  then show ?thesis
    using insert_article_readonly [of "s\<lparr>stdout := stdout s @ [title a]\<rparr>" a]
    by (auto simp: Scraped handle_future_Scraped Let_def split: sum.splits)
qed (simp_all add: handle_future_other)

lemma handle_future_not_scraped:
  "scraped_articles [f] = [] \<Longrightarrow> articles (handle_future f s) = articles s"
  by (cases f) (simp_all add: handle_future_other)

lemma handle_future_url_stored:
  "\<not> readonly s \<Longrightarrow> url a \<in> set (article_urls (handle_future (Scraped a) s))"
  using insert_article_url_stored [of "s\<lparr>stdout := stdout s @ [title a]\<rparr>" a]
  by (auto simp: handle_future_Scraped Let_def split: sum.splits)

lemma scraped_articles_Cons:
  "scraped_articles (f # fs) = scraped_articles [f] @ scraped_articles fs"
  by (cases f) simp_all

lemma scraped_articles_set: "set (scraped_articles fs) = {a. Scraped a \<in> set fs}"
proof (induction fs)
  case (Cons f fs)
  then show ?case by (cases f) auto
qed simp

lemma scraped_articles_mset:
  "mset (scraped_articles fs) = (\<Sum>f\<in>#mset fs. mset (scraped_articles [f]))"
proof (induction fs)
  case (Cons f fs)
  then show ?case by (cases f) simp_all
qed simp

lemma scraped_articles_length:
  "NoArticle \<notin> set fs \<Longrightarrow> length (scraped_articles fs) = length fs - length (filter is_failed fs)"
proof (induction fs)
  case (Cons f fs)
  have "length (filter is_failed fs) \<le> length fs" by simp
  with Cons show ?case by (cases f) (simp_all add: Suc_diff_le)
qed simp

lemma fold_frame:
  "labels (fold handle_future fs s) = labels s"
  "readonly (fold handle_future fs s) = readonly s"
  "submitted (fold handle_future fs s) = submitted s"
  "url_unique (articles (fold handle_future fs s)) = url_unique (articles s)"
  by (induction fs arbitrary: s) (simp_all add: handle_future_frame)

lemma fold_insert_calls:
  "insert_calls (fold handle_future fs s) = insert_calls s @ scraped_articles fs"
proof (induction fs arbitrary: s)
  case (Cons f fs)
  show ?case
    using Cons [of "handle_future f s"] scraped_articles_Cons [of f fs]
    by (simp add: handle_future_frame(5))
qed simp

lemma fold_prefix:
  "prefix (rows (articles s)) (rows (articles (fold handle_future fs s)))"
proof (induction fs arbitrary: s)
  case (Cons f fs)
  have "prefix (rows (articles s)) (rows (articles (handle_future f s)))"
    using handle_future_rows [of f s] by auto
  then show ?case using Cons [of "handle_future f s"] by (auto intro: prefix_order.trans)
qed simp

lemma fold_free:
  "\<not> readonly s \<Longrightarrow> \<not> url_unique (articles s) \<Longrightarrow>
   rows (articles (fold handle_future fs s)) = rows (articles s) @ map article_values (scraped_articles fs)"
proof (induction fs arbitrary: s)
  case (Cons f fs)
  show ?case
    using Cons.IH [of "handle_future f s"] Cons.prems handle_future_free [of s f]
      scraped_articles_Cons [of f fs]
    by (simp add: handle_future_frame)
qed simp

lemma fold_readonly:
  "readonly s \<Longrightarrow> articles (fold handle_future fs s) = articles s"
proof (induction fs arbitrary: s)
  case (Cons f fs)
  show ?case
    using Cons.IH [of "handle_future f s"] Cons.prems handle_future_readonly [of s f]
    by (simp add: handle_future_frame)
qed simp

lemma fold_not_scraped:
  "scraped_articles fs = [] \<Longrightarrow> articles (fold handle_future fs s) = articles s"
proof (induction fs arbitrary: s)
  case (Cons f fs)
  from Cons.prems have "scraped_articles [f] = []" "scraped_articles fs = []"
    using scraped_articles_Cons [of f fs] by simp_all
  then show ?case
    using Cons.IH [of "handle_future f s"] handle_future_not_scraped [of f s] by simp
qed simp

lemma fold_url_stored:
  "\<not> readonly s \<Longrightarrow> Scraped a \<in> set fs \<Longrightarrow> url a \<in> set (article_urls (fold handle_future fs s))"
proof (induction fs arbitrary: s)
  case (Cons f fs)
  have ro: "\<not> readonly (handle_future f s)" using Cons.prems by (simp add: handle_future_frame)
  show ?case
  proof (cases "f = Scraped a")
    case True
    have "url a \<in> set (article_urls (handle_future f s))"
      using Cons.prems(1) True handle_future_url_stored by simp
    moreover have "set (article_urls (handle_future f s)) \<subseteq> set (article_urls (fold handle_future fs (handle_future f s)))"
      using fold_prefix [of "handle_future f s" fs] by (auto simp: prefix_def)
    ultimately show ?thesis by auto
  next
    case False
    with Cons.prems have "Scraped a \<in> set fs" by simp
    from Cons.IH [OF ro this] show ?thesis by simp
  qed
qed simp

lemma filter_length_mset:
  "mset xs = mset ys \<Longrightarrow> length (filter P xs) = length (filter P ys)"
  by (metis mset_filter size_mset)

lemma scraped_articles_as_completed:
  "mset (scraped_articles (as_completed sched fs)) = mset (scraped_articles fs)"
  by (simp add: scraped_articles_mset [of "as_completed sched fs"] scraped_articles_mset [of fs]
      as_completed_mset)

lemma count_list_filter:
  "P u \<Longrightarrow> count_list (filter P xs) u = count_list xs u"
  by (induction xs) auto

lemma scraped_articles_count:
  assumes "\<forall>v\<in>set urls. \<forall>b. scrape v = Scraped b \<longrightarrow> url b = v"
    and "scrape u = Scraped a"
  shows "length (filter (\<lambda>b. url b = u) (scraped_articles (map scrape urls))) = count_list urls u"
  using assms(1)
proof (induction urls)
  case (Cons v vs)
  then have IH: "length (filter (\<lambda>b. url b = u) (scraped_articles (map scrape vs))) = count_list vs u"
    by simp
  show ?case
  proof (cases "scrape v")
    case (Scraped b)
    with Cons.prems have "url b = v" by simp
    then show ?thesis using Scraped IH by simp
  next
    case NoArticle
    then have "v \<noteq> u" using assms(2) by auto
    then show ?thesis using NoArticle IH by simp
  next
    case (Failed msg)
    then have "v \<noteq> u" using assms(2) by auto
    then show ?thesis using Failed IH by simp
  qed
qed simp

lemma insert_article_stdout_app:
  "\<exists>out. stdout (snd (insert_article a s)) = stdout s @ out"
  by (auto simp: insert_article_def Let_def sql_insert_def split: sum.splits error.splits)

lemma failure_lines_Cons:
  "failure_lines (f # fs) = failure_lines [f] @ failure_lines fs"
  by (cases f) simp_all

lemma failure_lines_mset:
  "mset (failure_lines fs) = (\<Sum>f\<in>#mset fs. mset (failure_lines [f]))"
proof (induction fs)
  case (Cons f fs)
  then show ?case by (cases f) simp_all
qed simp

lemma failure_lines_as_completed:
  "mset (failure_lines (as_completed sched fs)) = mset (failure_lines fs)"
  by (simp add: failure_lines_mset [of "as_completed sched fs"] failure_lines_mset [of fs]
      as_completed_mset)

lemma failure_lines_length: "length (failure_lines fs) = length (filter is_failed fs)"
proof (induction fs)
  case (Cons f fs)
  then show ?case by (cases f) simp_all
qed simp

lemma handle_future_stdout_app:
  "\<exists>out. stdout (handle_future f s) = stdout s @ out \<and> mset (failure_lines [f]) \<subseteq># mset out"
proof (cases f)
  case (Scraped a)
  obtain out where "stdout (snd (insert_article a (s\<lparr>stdout := stdout s @ [title a]\<rparr>)))
      = (stdout s @ [title a]) @ out"
    using insert_article_stdout_app [of a "s\<lparr>stdout := stdout s @ [title a]\<rparr>"] by auto
  then show ?thesis
    by (auto simp: Scraped handle_future_Scraped Let_def split: sum.splits)
qed (simp_all add: handle_future_other)

lemma fold_stdout_app:
  "\<exists>out. stdout (fold handle_future fs s) = stdout s @ out \<and> mset (failure_lines fs) \<subseteq># mset out"
proof (induction fs arbitrary: s)
  case (Cons f fs)
  obtain o1 where o1: "stdout (handle_future f s) = stdout s @ o1"
    "mset (failure_lines [f]) \<subseteq># mset o1"
    using handle_future_stdout_app [of f s] by blast
  obtain o2 where o2: "stdout (fold handle_future fs (handle_future f s))
      = stdout (handle_future f s) @ o2" "mset (failure_lines fs) \<subseteq># mset o2"
    using Cons [of "handle_future f s"] by blast
  have "mset (failure_lines (f # fs)) \<subseteq># mset (o1 @ o2)"
    using o1(2) o2(2) failure_lines_Cons [of f fs] by (simp add: mset_subset_eq_mono_add)
  then show ?case using o1(1) o2(1) by (intro exI [of _ "o1 @ o2"]) simp
qed simp

lemma process_urls_unfold:
  "process_urls scrape sched csv_urls s =
     (Inr (), fold handle_future
        (as_completed sched (map scrape (filter (\<lambda>u. u \<notin> set (article_urls s)) csv_urls)))
        (s\<lparr>submitted := submitted s @ filter (\<lambda>u. u \<notin> set (article_urls s)) csv_urls\<rparr>))"
  by (simp add: process_urls_def Let_def)

lemma construct_new_file: "construct new_file = Inr fresh"
  by (simp add: construct_def new_file_def create_table_if_not_exists_def fresh_def)

lemma construct_keyed_file: "construct keyed_file = Inr keyed"
  by (simp add: construct_def keyed_file_def create_table_if_not_exists_def keyed_def)

subsection \<open>Label ingestion\<close>

text \<open>
  C1 (the code departs from it). Claimed: \<open>process_labeled_data\<close> skips the urls already in
  Labels and inserts the remaining pairs, each url with the category of its own CSV row.
  The method filters the url column and zips the result with the unfiltered label column,
  so after one skipped url every later url gets the category of an earlier row. Here a
  file with one row is ingested into a new store, and then the file grown by a second row
  (\<open>http://b.test\<close>, \<open>conflict\<close>): the row inserted for \<open>http://b.test\<close> carries
  \<open>disaster\<close>, the category of the row of \<open>http://a.test\<close>.
\<close>

theorem process_labeled_data_misaligned_category:
  "construct new_file = Inr fresh \<and>
   fst (process_labeled_data csv_one ''URL'' ''Tag'' fresh) = Inr () \<and>
   process_labeled_data csv_two ''URL'' ''Tag''
       (snd (process_labeled_data csv_one ''URL'' ''Tag'' fresh))
     = (Inr (), fresh\<lparr>labels :=
          \<lparr>rows = [(''http://a.test'', ''disaster''), (''http://b.test'', ''disaster'')],
           url_unique = False\<rparr>\<rparr>)"
  by (simp add: construct_new_file process_labeled_data_def csv_one_def csv_two_def fresh_def
      sql_insert_def label_url_def)

subsection \<open>Training data\<close>

text \<open>
  C2 (the code departs from it). Claimed: \<open>get_training_data\<close> returns the contents and the
  labels of the joined rows as two parallel sequences. With one article and its label
  stored, the join has one row; the method returns the labels first, and as second
  component not the contents but a zero-dimensional array around a generator that reads
  the cursor the first comprehension has already emptied.
\<close>

theorem get_training_data_returns_no_features:
  "get_training_data
     (snd (process_labeled_data csv_one ''URL'' ''Tag'' (snd (insert_article article_a fresh))))
   = (Inr (Array1 [''disaster''], Array0_generator []),
      snd (process_labeled_data csv_one ''URL'' ''Tag'' (snd (insert_article article_a fresh))))
   \<and> rows (articles (snd (process_labeled_data csv_one ''URL'' ''Tag''
                             (snd (insert_article article_a fresh)))))
       = [article_values article_a]
   \<and> row_content (article_values article_a) = ''text of a''
   \<and> rows (labels (snd (process_labeled_data csv_one ''URL'' ''Tag''
                           (snd (insert_article article_a fresh)))))
       = [(''http://a.test'', ''disaster'')]"
  by (simp add: get_training_data_def process_labeled_data_def csv_one_def fresh_def
      insert_article_def sql_insert_def label_url_def label_category_def sql_inner_join_def
      fetch_all_def article_values_def article_a_def row_url_def row_content_def Let_def)

subsection \<open>Article insertion\<close>

text \<open>
  C3 (the code departs from it). Claimed: after any sequence of \<open>insert_article\<close> calls on
  a freshly constructed store, no url has more than one row in Articles. The tables the
  constructor creates have no key, so the second insert of the same article succeeds like
  the first and the table holds its row twice.
\<close>

theorem insert_article_twice_stores_two_rows:
  "construct new_file = Inr fresh \<and>
   rows (articles (snd (insert_article article_a (snd (insert_article article_a fresh)))))
     = [article_values article_a, article_values article_a]"
  by (simp add: construct_new_file insert_article_def fresh_def sql_insert_def Let_def)

text \<open>
  C4 (the code departs from it). Claimed: on a uniqueness violation \<open>insert_article\<close>
  leaves the store as it is, prints a diagnostic and raises nothing. On a database whose
  Articles table does have url as its key and already holds the url, the insert is
  refused and the handler runs; building its message it raises \<^verbatim>\<open>AttributeError\<close>, which
  leaves the method, and nothing has been printed.
\<close>

theorem insert_article_duplicate_raises:
  "construct keyed_file = Inr keyed \<and>
   url article_a \<in> set (article_urls keyed) \<and>
   fst (insert_article article_a keyed) = Inl (AttributeError ''url'') \<and>
   stdout (snd (insert_article article_a keyed)) = stdout keyed \<and>
   articles (snd (insert_article article_a keyed)) = articles keyed"
  by (simp add: construct_keyed_file insert_article_def keyed_def sql_insert_def Let_def
      article_values_def row_url_def)

subsection \<open>URL ingestion\<close>

text \<open>
  C5. The scrape tasks \<open>process_urls\<close> submits are the entries of the CSV's url column, in
  order, that are not among the urls stored in Articles when the method is called; as a
  set, the url column minus the stored urls.
\<close>

theorem process_urls_dispatches_unstored_urls:
  "submitted (snd (process_urls scrape sched csv_urls s))
     = submitted s @ filter (\<lambda>u. u \<notin> set (article_urls s)) csv_urls
   \<and> set (filter (\<lambda>u. u \<notin> set (article_urls s)) csv_urls)
       = set csv_urls - set (article_urls s)"
  by (auto simp: process_urls_unfold fold_frame)

subsection \<open>Rows are only appended\<close>

text \<open>
  C9. No operation updates or deletes a row. The constructor returns a table that exists
  in the file as it found it; \<open>insert_article\<close> and \<open>process_urls\<close> leave Labels alone and
  keep the rows of Articles as a prefix of the new rows; \<open>process_labeled_data\<close> leaves
  Articles alone and keeps the rows of Labels as a prefix; \<open>get_training_data\<close> changes
  nothing. This holds for every exit of each method, the raising ones included.
\<close>

theorem operations_only_append:
  "(construct f = Inr s0 \<longrightarrow>
      (\<forall>t. articles_tbl f = Some t \<longrightarrow> articles s0 = t) \<and>
      (\<forall>t. labels_tbl f = Some t \<longrightarrow> labels s0 = t))
   \<and> prefix (rows (articles s)) (rows (articles (snd (insert_article a s))))
   \<and> labels (snd (insert_article a s)) = labels s
   \<and> prefix (rows (articles s)) (rows (articles (snd (process_urls scrape sched csv_urls s))))
   \<and> labels (snd (process_urls scrape sched csv_urls s)) = labels s
   \<and> articles (snd (process_labeled_data df uc lc s)) = articles s
   \<and> prefix (rows (labels s)) (rows (labels (snd (process_labeled_data df uc lc s))))
   \<and> snd (get_training_data s) = s"
proof -
  have c: "construct f = Inr s0 \<longrightarrow>
      (\<forall>t. articles_tbl f = Some t \<longrightarrow> articles s0 = t) \<and>
      (\<forall>t. labels_tbl f = Some t \<longrightarrow> labels s0 = t)"
    by (auto simp: construct_def create_table_if_not_exists_def
        split: sum.splits option.splits if_splits)
  have i: "prefix (rows (articles s)) (rows (articles (snd (insert_article a s))))"
    using insert_article_rows [of a s] by auto
  have u: "prefix (rows (articles s))
             (rows (articles (snd (process_urls scrape sched csv_urls s))))"
    using fold_prefix
      [of "s\<lparr>submitted := submitted s @ filter (\<lambda>u. u \<notin> set (article_urls s)) csv_urls\<rparr>"]
    by (simp add: process_urls_unfold)
  have ul: "labels (snd (process_urls scrape sched csv_urls s)) = labels s"
    by (simp add: process_urls_unfold fold_frame)
  have la: "articles (snd (process_labeled_data df uc lc s)) = articles s"
    by (simp add: process_labeled_data_def Let_def split: option.splits prod.splits)
  have ll: "prefix (rows (labels s)) (rows (labels (snd (process_labeled_data df uc lc s))))"
  proof (cases "df uc")
    case None
    then show ?thesis by (simp add: process_labeled_data_def)
  next
    case (Some us)
    show ?thesis
    proof (cases "df lc")
      case None
      then show ?thesis using Some by (simp add: process_labeled_data_def Let_def)
    next
      case ls: (Some ls)
      obtain r t where e: "executemany (readonly s) label_url
          (zip (filter (\<lambda>u. u \<notin> set (map label_url (rows (labels s)))) us) ls) (labels s)
            = (r, t)"
        by (cases "executemany (readonly s) label_url
          (zip (filter (\<lambda>u. u \<notin> set (map label_url (rows (labels s)))) us) ls) (labels s)")
          auto
      from executemany_prefix [OF e] have "prefix (rows (labels s)) (rows t)"
        by (auto simp: prefix_def)
      then show ?thesis using Some ls e by (simp add: process_labeled_data_def Let_def)
    qed
  qed
  have g: "snd (get_training_data s) = s"
    by (simp add: get_training_data_def Let_def fetch_all_def)
  show ?thesis using c i u ul la ll g insert_article_frame(1) [of a s] by blast
qed

theorem operations_only_append_witness:
  "construct keyed_file = Inr keyed \<and>
   articles_tbl keyed_file = Some \<lparr>rows = [article_values article_a], url_unique = True\<rparr> \<and>
   articles keyed = \<lparr>rows = [article_values article_a], url_unique = True\<rparr> \<and>
   labels_tbl keyed_file = Some \<lparr>rows = [], url_unique = True\<rparr> \<and>
   labels keyed = \<lparr>rows = [], url_unique = True\<rparr> \<and>
   prefix (rows (articles keyed)) (rows (articles (snd (insert_article article_a keyed))))"
proof -
  note w = operations_only_append [of keyed_file keyed keyed article_a scrape_up "[]" "[]"
      csv_one "''URL''" "''Tag''"]
  have "articles_tbl keyed_file = Some \<lparr>rows = [article_values article_a], url_unique = True\<rparr>"
    and "labels_tbl keyed_file = Some \<lparr>rows = [], url_unique = True\<rparr>"
    by (simp_all add: keyed_file_def)
  with w construct_keyed_file show ?thesis by blast
qed

subsection \<open>Label ingestion is not one transaction\<close>

text \<open>
  C7 (refuted as stated). Claimed: the batch of label rows is committed as one transaction,
  so that a failure partway leaves Labels unchanged. On a database whose Labels table has
  url as its key, a file that names a new url twice gets its first row inserted; the
  second insert is refused, the error leaves the method, and the first row stays.
\<close>

theorem process_labeled_data_partial_batch_persisted:
  "fst (process_labeled_data csv_twice ''URL'' ''Tag'' keyed) = Inl IntegrityError \<and>
   rows (labels (snd (process_labeled_data csv_twice ''URL'' ''Tag'' keyed)))
     = [(''http://b.test'', ''conflict'')] \<and>
   rows (labels keyed) = [] \<and>
   labels (snd (process_labeled_data csv_twice ''URL'' ''Tag'' keyed)) \<noteq> labels keyed"
  by (simp add: process_labeled_data_def csv_twice_def keyed_def sql_insert_def label_url_def)

text \<open>
  C7 (amended). The connection is in autocommit mode, so the batch is inserted and made
  durable row by row, not as one transaction. A column that is missing raises before
  anything is written. Otherwise either the method returns and Labels is its old rows
  followed by the whole batch, or it raises the error of the first row of the batch that
  the store refuses (row \<open>k\<close>), and Labels is its old rows followed by exactly the \<open>k\<close> rows
  before that one: they stay, the refused row and the rows after it are not there.
\<close>

theorem process_labeled_data_keeps_rows_before_failure:
  assumes "process_labeled_data df uc lc s = (r, s')"
  shows "(df uc = None \<longrightarrow> r = Inl (KeyError uc) \<and> s' = s) \<and>
         (\<forall>us. df uc = Some us \<and> df lc = None \<longrightarrow> r = Inl (KeyError lc) \<and> s' = s) \<and>
         (\<forall>us ls. df uc = Some us \<and> df lc = Some ls \<longrightarrow>
            (let batch = zip (filter (\<lambda>u. u \<notin> set (map label_url (rows (labels s)))) us) ls
             in (r = Inr () \<and>
                 s' = s\<lparr>labels := (labels s)\<lparr>rows := rows (labels s) @ batch\<rparr>\<rparr>) \<or>
                (\<exists>e k. r = Inl e \<and> k < length batch \<and>
                   s' = s\<lparr>labels := (labels s)\<lparr>rows := rows (labels s) @ take k batch\<rparr>\<rparr> \<and>
                   sql_insert (readonly s) label_url (batch ! k) (labels s') = Inl e)))"
proof -
  have a: "df uc = None \<longrightarrow> r = Inl (KeyError uc) \<and> s' = s"
    using assms by (auto simp: process_labeled_data_def)
  have b: "\<forall>us. df uc = Some us \<and> df lc = None \<longrightarrow> r = Inl (KeyError lc) \<and> s' = s"
    using assms by (auto simp: process_labeled_data_def Let_def)
  have c: "(let batch = zip (filter (\<lambda>u. u \<notin> set (map label_url (rows (labels s)))) us) ls
             in (r = Inr () \<and>
                 s' = s\<lparr>labels := (labels s)\<lparr>rows := rows (labels s) @ batch\<rparr>\<rparr>) \<or>
                (\<exists>e k. r = Inl e \<and> k < length batch \<and>
                   s' = s\<lparr>labels := (labels s)\<lparr>rows := rows (labels s) @ take k batch\<rparr>\<rparr> \<and>
                   sql_insert (readonly s) label_url (batch ! k) (labels s') = Inl e))"
    if d: "df uc = Some us \<and> df lc = Some ls" for us ls
  proof -
    let ?batch = "zip (filter (\<lambda>u. u \<notin> set (map label_url (rows (labels s)))) us) ls"
    obtain t where e: "executemany (readonly s) label_url ?batch (labels s) = (r, t)"
      and s': "s' = s\<lparr>labels := t\<rparr>"
      using assms d by (auto simp: process_labeled_data_def Let_def split: prod.splits)
    from executemany_failing_row [OF e] show ?thesis
      unfolding Let_def using s' by auto
  qed
  show ?thesis using a b c by blast
qed

theorem process_labeled_data_keeps_rows_before_failure_witness:
  "csv_thrice ''URL'' = Some [''http://b.test'', ''http://c.test'', ''http://b.test''] \<and>
   csv_thrice ''Tag'' = Some [''conflict'', ''other'', ''disaster''] \<and>
   process_labeled_data csv_thrice ''URL'' ''Tag'' keyed
     = (Inl IntegrityError, keyed\<lparr>labels :=
          \<lparr>rows = [(''http://b.test'', ''conflict''), (''http://c.test'', ''other'')],
           url_unique = True\<rparr>\<rparr>) \<and>
   sql_insert False label_url (''http://b.test'', ''disaster'')
      \<lparr>rows = [(''http://b.test'', ''conflict''), (''http://c.test'', ''other'')],
       url_unique = True\<rparr> = Inl IntegrityError \<and>
   csv_two ''URL'' = Some [''http://a.test'', ''http://b.test''] \<and>
   csv_two ''Tag'' = Some [''disaster'', ''conflict''] \<and>
   process_labeled_data csv_two ''URL'' ''Tag'' fresh
     = (Inr (), fresh\<lparr>labels :=
          \<lparr>rows = [(''http://a.test'', ''disaster''), (''http://b.test'', ''conflict'')],
           url_unique = False\<rparr>\<rparr>)"
proof -
  have failing: "process_labeled_data csv_thrice ''URL'' ''Tag'' keyed
     = (Inl IntegrityError, keyed\<lparr>labels :=
          \<lparr>rows = [(''http://b.test'', ''conflict''), (''http://c.test'', ''other'')],
           url_unique = True\<rparr>\<rparr>)"
    by (simp add: process_labeled_data_def csv_thrice_def keyed_def sql_insert_def label_url_def)
  have returning: "process_labeled_data csv_two ''URL'' ''Tag'' fresh
     = (Inr (), fresh\<lparr>labels :=
          \<lparr>rows = [(''http://a.test'', ''disaster''), (''http://b.test'', ''conflict'')],
           url_unique = False\<rparr>\<rparr>)"
    by (simp add: process_labeled_data_def csv_two_def fresh_def sql_insert_def label_url_def)
  have cols: "csv_thrice ''URL'' = Some [''http://b.test'', ''http://c.test'', ''http://b.test'']"
    "csv_thrice ''Tag'' = Some [''conflict'', ''other'', ''disaster'']"
    "csv_two ''URL'' = Some [''http://a.test'', ''http://b.test'']"
    "csv_two ''Tag'' = Some [''disaster'', ''conflict'']"
    by (simp_all add: csv_thrice_def csv_two_def)
  have refused: "sql_insert False label_url (''http://b.test'', ''disaster'')
      \<lparr>rows = [(''http://b.test'', ''conflict''), (''http://c.test'', ''other'')],
       url_unique = True\<rparr> = Inl IntegrityError"
    by (simp add: sql_insert_def label_url_def)
  note process_labeled_data_keeps_rows_before_failure [OF failing]
    process_labeled_data_keeps_rows_before_failure [OF returning]
  then show ?thesis using failing returning cols refused by blast
qed

subsection \<open>Failed scrapes\<close>

text \<open>
  C8. Let \<open>urls\<close> be the urls \<open>process_urls\<close> submits, none of whose scrapes gives
  \<^verbatim>\<open>None\<close>. Then the method returns normally; the calls of \<open>insert_article\<close> it makes are
  as many as there are urls minus the scrapes that raised, and their arguments are the
  scraped articles in some order; and the lines printed during the run include, for each
  scrape that raised, one line \<^verbatim>\<open>Exception: \<close> followed by its text (as many such lines
  as scrapes that raised).
\<close>

theorem process_urls_partial_failure:
  assumes "urls = filter (\<lambda>u. u \<notin> set (article_urls s)) csv_urls"
    and "\<forall>u\<in>set urls. scrape u \<noteq> NoArticle"
  shows "fst (process_urls scrape sched csv_urls s) = Inr () \<and>
         (\<exists>cs. insert_calls (snd (process_urls scrape sched csv_urls s)) = insert_calls s @ cs \<and>
               length cs = length urls - length (filter (\<lambda>u. is_failed (scrape u)) urls) \<and>
               mset cs = mset (scraped_articles (map scrape urls))) \<and>
         (\<exists>out. stdout (snd (process_urls scrape sched csv_urls s)) = stdout s @ out \<and>
               mset (failure_lines (map scrape urls)) \<subseteq># mset out) \<and>
         length (failure_lines (map scrape urls))
           = length (filter (\<lambda>u. is_failed (scrape u)) urls)"
proof -
  let ?fs = "map scrape urls"
  let ?done = "as_completed sched ?fs"
  let ?s1 = "s\<lparr>submitted := submitted s @ urls\<rparr>"
  have run: "process_urls scrape sched csv_urls s = (Inr (), fold handle_future ?done ?s1)"
    using assms(1) by (simp add: process_urls_unfold)
  have calls: "insert_calls (fold handle_future ?done ?s1) = insert_calls s @ scraped_articles ?done"
    by (simp add: fold_insert_calls)
  have failed: "length (filter is_failed ?fs) = length (filter (\<lambda>u. is_failed (scrape u)) urls)"
    by (simp add: filter_map comp_def)
  have "NoArticle \<notin> set ?done"
    using assms(2) by (auto simp: as_completed_set)
  then have "length (scraped_articles ?done) = length ?done - length (filter is_failed ?done)"
    by (rule scraped_articles_length)
  also have "length ?done = length urls" by (simp add: as_completed_length)
  also have "length (filter is_failed ?done) = length (filter is_failed ?fs)"
    by (rule filter_length_mset) (rule as_completed_mset)
  finally have len: "length (scraped_articles ?done)
      = length urls - length (filter (\<lambda>u. is_failed (scrape u)) urls)"
    using failed by simp
  have perm: "mset (scraped_articles ?done) = mset (scraped_articles ?fs)"
    by (rule scraped_articles_as_completed)
  obtain out where out: "stdout (fold handle_future ?done ?s1) = stdout s @ out"
    "mset (failure_lines ?done) \<subseteq># mset out"
    using fold_stdout_app [of ?done ?s1] by auto
  have log: "mset (failure_lines ?fs) \<subseteq># mset out"
    using out(2) by (simp add: failure_lines_as_completed)
  have n: "length (failure_lines ?fs) = length (filter (\<lambda>u. is_failed (scrape u)) urls)"
    using failed by (simp add: failure_lines_length)
  show ?thesis using run calls len perm out(1) log n by simp
qed

theorem process_urls_partial_failure_witness:
  "scrape_flaky ''http://a.test'' \<noteq> NoArticle \<and> scrape_flaky ''http://x.test'' \<noteq> NoArticle \<and>
   fst (process_urls scrape_flaky [1] [''http://a.test'', ''http://x.test''] fresh) = Inr () \<and>
   insert_calls (snd (process_urls scrape_flaky [1] [''http://a.test'', ''http://x.test''] fresh))
     = [article_a] \<and>
   stdout (snd (process_urls scrape_flaky [1] [''http://a.test'', ''http://x.test''] fresh))
     = [''Exception: timed out'', title article_a] \<and>
   failure_lines (map scrape_flaky [''http://a.test'', ''http://x.test''])
     = [''Exception: timed out'']"
proof -
  have run: "snd (process_urls scrape_flaky [1] [''http://a.test'', ''http://x.test''] fresh)
      = fresh\<lparr>articles := \<lparr>rows = [article_values article_a], url_unique = False\<rparr>,
               stdout := [''Exception: timed out'', title article_a],
               submitted := [''http://a.test'', ''http://x.test''],
               insert_calls := [article_a]\<rparr>"
    by (simp add: process_urls_def fresh_def scrape_flaky_def handle_future_def
        insert_article_def sql_insert_def Let_def)
  note process_urls_partial_failure [of "[''http://a.test'', ''http://x.test'']" fresh
      "[''http://a.test'', ''http://x.test'']" scrape_flaky "[1]"]
  then show ?thesis using run by (simp add: fresh_def scrape_flaky_def)
qed

subsection \<open>Repeated urls and repeated runs\<close>

text \<open>
  C10. A url that is not stored is submitted as often as the CSV's url column names it.
  On a writable store without a key on url, if the scraper returns an article for it and
  every article it returns for a url of the file carries that url, then after the run
  Articles holds as many rows with this url as the column has entries of it.
\<close>

theorem process_urls_keeps_csv_duplicates:
  assumes "u \<notin> set (article_urls s)"
  shows "(\<exists>d. submitted (snd (process_urls scrape sched csv_urls s)) = submitted s @ d \<and>
              count_list d u = count_list csv_urls u) \<and>
         (\<not> readonly s \<and> \<not> url_unique (articles s) \<and> (\<exists>a. scrape u = Scraped a) \<and>
          (\<forall>v\<in>set csv_urls. \<forall>b. scrape v = Scraped b \<longrightarrow> url b = v) \<longrightarrow>
            length (filter (\<lambda>r. row_url r = u)
                      (rows (articles (snd (process_urls scrape sched csv_urls s)))))
              = count_list csv_urls u)"
proof -
  let ?urls = "filter (\<lambda>u. u \<notin> set (article_urls s)) csv_urls"
  let ?fs = "map scrape ?urls"
  let ?done = "as_completed sched ?fs"
  let ?s1 = "s\<lparr>submitted := submitted s @ ?urls\<rparr>"
  have cnt: "count_list ?urls u = count_list csv_urls u"
    using assms by (simp add: count_list_filter)
  have sub: "submitted (snd (process_urls scrape sched csv_urls s)) = submitted s @ ?urls"
    by (simp add: process_urls_unfold fold_frame)
  have stored: "length (filter (\<lambda>r. row_url r = u)
                      (rows (articles (snd (process_urls scrape sched csv_urls s)))))
              = count_list csv_urls u"
    if free: "\<not> readonly s" "\<not> url_unique (articles s)"
      and ok: "scrape u = Scraped a"
      and own: "\<forall>v\<in>set csv_urls. \<forall>b. scrape v = Scraped b \<longrightarrow> url b = v" for a
  proof -
    have rows: "rows (articles (snd (process_urls scrape sched csv_urls s)))
        = rows (articles s) @ map article_values (scraped_articles ?done)"
      using free fold_free [of ?s1 ?done] by (simp add: process_urls_unfold)
    have old: "filter (\<lambda>r. row_url r = u) (rows (articles s)) = []"
      using assms by (auto simp: filter_empty_conv)
    have "length (filter (\<lambda>r. row_url r = u) (map article_values (scraped_articles ?done)))
        = length (filter (\<lambda>b. url b = u) (scraped_articles ?done))"
      by (simp add: filter_map comp_def row_url_article_values)
    also have "\<dots> = length (filter (\<lambda>b. url b = u) (scraped_articles ?fs))"
      by (rule filter_length_mset) (rule scraped_articles_as_completed)
    also have "\<dots> = count_list ?urls u"
      using own ok by (intro scraped_articles_count) auto
    finally show ?thesis using rows old cnt by simp
  qed
  show ?thesis using cnt sub stored by blast
qed

theorem process_urls_keeps_csv_duplicates_witness:
  "''http://a.test'' \<notin> set (article_urls fresh) \<and>
   \<not> readonly fresh \<and> \<not> url_unique (articles fresh) \<and>
   scrape_up ''http://a.test'' = Scraped article_a \<and> url article_a = ''http://a.test'' \<and>
   count_list [''http://a.test'', ''http://a.test''] ''http://a.test'' = 2 \<and>
   length (filter (\<lambda>r. row_url r = ''http://a.test'')
             (rows (articles (snd (process_urls scrape_up []
                [''http://a.test'', ''http://a.test''] fresh))))) = 2"
  using process_urls_keeps_csv_duplicates [of "''http://a.test''" fresh scrape_up "[]"
      "[''http://a.test'', ''http://a.test'']"]
  by (simp add: fresh_def scrape_up_def article_a_def)

text \<open>
  C6 (refuted as stated). Claimed: a second run of \<open>process_urls\<close> on the same CSV inserts
  nothing. A url whose scrape failed in the first run is not stored, so the second run
  submits it again; when the site answers this time, its article is inserted.
\<close>

theorem process_urls_rerun_after_failed_scrape_inserts:
  "fst (process_urls scrape_down [] [''http://a.test''] fresh) = Inr () \<and>
   rows (articles (snd (process_urls scrape_down [] [''http://a.test''] fresh))) = [] \<and>
   rows (articles (snd (process_urls scrape_up [] [''http://a.test'']
                     (snd (process_urls scrape_down [] [''http://a.test''] fresh)))))
     = [article_values article_a] \<and>
   articles (snd (process_urls scrape_up [] [''http://a.test'']
                     (snd (process_urls scrape_down [] [''http://a.test''] fresh))))
     \<noteq> articles (snd (process_urls scrape_down [] [''http://a.test''] fresh))"
  by (simp add: process_urls_def fresh_def scrape_down_def scrape_up_def handle_future_def
      insert_article_def sql_insert_def Let_def)

text \<open>
  The same happens when the scrapes succeed but an article comes back under another url
  than the one asked for: the url of the file is never stored, and every run adds the
  article again.
\<close>

lemma process_urls_rerun_after_redirect_inserts:
  "rows (articles (snd (process_urls scrape_redirect [] [''http://a.test/?ref=1''] fresh)))
     = [article_values article_a] \<and>
   rows (articles (snd (process_urls scrape_redirect [] [''http://a.test/?ref=1'']
                     (snd (process_urls scrape_redirect [] [''http://a.test/?ref=1''] fresh)))))
     = [article_values article_a, article_values article_a]"
  by (simp add: process_urls_def fresh_def scrape_redirect_def handle_future_def
      insert_article_def sql_insert_def Let_def article_values_def article_a_def row_url_def)

text \<open>
  C6 (amended). When both runs get the same answer from the scraper for every url, and
  every article it returns for a url of the file carries that url, the second run leaves
  Articles exactly as the first run left it, whatever the completion orders, the store's
  schema and the urls that failed.
\<close>

theorem process_urls_second_run_inserts_nothing:
  assumes own: "\<forall>u\<in>set csv_urls. \<forall>a. scrape u = Scraped a \<longrightarrow> url a = u"
  shows "articles (snd (process_urls scrape sched2 csv_urls
                          (snd (process_urls scrape sched1 csv_urls s))))
         = articles (snd (process_urls scrape sched1 csv_urls s))"
proof -
  let ?urls1 = "filter (\<lambda>u. u \<notin> set (article_urls s)) csv_urls"
  let ?done1 = "as_completed sched1 (map scrape ?urls1)"
  let ?s1 = "fold handle_future ?done1 (s\<lparr>submitted := submitted s @ ?urls1\<rparr>)"
  let ?urls2 = "filter (\<lambda>u. u \<notin> set (article_urls ?s1)) csv_urls"
  let ?done2 = "as_completed sched2 (map scrape ?urls2)"
  have run1: "snd (process_urls scrape sched1 csv_urls s) = ?s1"
    by (simp add: process_urls_unfold)
  have run2: "articles (snd (process_urls scrape sched2 csv_urls ?s1))
      = articles (fold handle_future ?done2 (?s1\<lparr>submitted := submitted ?s1 @ ?urls2\<rparr>))"
    by (simp add: process_urls_unfold)
  show ?thesis
  proof (cases "readonly s")
    case True
    then have "readonly (?s1\<lparr>submitted := submitted ?s1 @ ?urls2\<rparr>)"
      by (simp add: fold_frame)
    from fold_readonly [OF this] show ?thesis using run1 run2 by simp
  next
    case False
    have "scraped_articles ?done2 = []"
    proof (rule ccontr)
      assume "scraped_articles ?done2 \<noteq> []"
      then obtain a where "a \<in> set (scraped_articles ?done2)"
        by (cases "scraped_articles ?done2") auto
      then have "Scraped a \<in> set (map scrape ?urls2)"
        by (simp add: scraped_articles_set as_completed_set)
      then obtain u where u: "u \<in> set csv_urls" "u \<notin> set (article_urls ?s1)" "scrape u = Scraped a"
        by auto
      with own have ua: "url a = u" by simp
      have "set (article_urls s) \<subseteq> set (article_urls ?s1)"
        using fold_prefix [of "s\<lparr>submitted := submitted s @ ?urls1\<rparr>" ?done1]
        by (auto simp: prefix_def)
      with u have "u \<in> set ?urls1" by auto
      with u(3) have "Scraped a \<in> set ?done1" by (force simp: as_completed_set)
      moreover have "\<not> readonly (s\<lparr>submitted := submitted s @ ?urls1\<rparr>)" using False by simp
      ultimately have "url a \<in> set (article_urls ?s1)" by (intro fold_url_stored)
      with ua u(2) show False by simp
    qed
    from fold_not_scraped [OF this] show ?thesis using run1 run2 by simp
  qed
qed

theorem process_urls_second_run_inserts_nothing_witness:
  "scrape_up ''http://a.test'' = Scraped article_a \<and> url article_a = ''http://a.test'' \<and>
   scrape_up ''http://x.test'' = NoArticle \<and>
   rows (articles (snd (process_urls scrape_up [1] [''http://a.test'', ''http://x.test''] fresh)))
     = [article_values article_a] \<and>
   articles (snd (process_urls scrape_up [] [''http://a.test'', ''http://x.test'']
               (snd (process_urls scrape_up [1] [''http://a.test'', ''http://x.test''] fresh))))
     = articles (snd (process_urls scrape_up [1] [''http://a.test'', ''http://x.test''] fresh))"
proof -
  have own: "\<forall>u\<in>set [''http://a.test'', ''http://x.test'']. \<forall>a.
      scrape_up u = Scraped a \<longrightarrow> url a = u"
    by (simp add: scrape_up_def article_a_def)
  have first: "rows (articles (snd (process_urls scrape_up [1]
      [''http://a.test'', ''http://x.test''] fresh))) = [article_values article_a]"
    by (simp add: process_urls_def fresh_def scrape_up_def handle_future_def
      insert_article_def sql_insert_def Let_def)
  have answers: "scrape_up ''http://a.test'' = Scraped article_a"
    "url article_a = ''http://a.test''" "scrape_up ''http://x.test'' = NoArticle"
    by (simp_all add: scrape_up_def article_a_def)
  show ?thesis
    using process_urls_second_run_inserts_nothing [OF own, of "[]" "[1]" fresh] first answers
    by blast
qed

end
